theory Spec2Isabelle
  imports Complex_Main
begin

section \<open>Numbers\<close>

text \<open>
  The timeline engine of \<^verbatim>\<open>src/extension/content.js\<close> computes with JavaScript numbers.
  Finite numbers are modelled as reals, so rounding of doubles is not part of the model.
  A quotient whose denominator may be zero is not a finite number in JavaScript
  (\<^verbatim>\<open>0/0\<close> is \<^verbatim>\<open>NaN\<close>, \<^verbatim>\<open>x/0\<close> is an infinity); such quotients are
  values of \<open>jsnum\<close>. Signed zeros are not distinguished.
\<close>

datatype jsnum = Fin real | PosInf | NegInf | NaN

definition js_div :: "real \<Rightarrow> real \<Rightarrow> jsnum" where
  "js_div a b =
     (if b \<noteq> 0 then Fin (a / b)
      else if 0 < a then PosInf
      else if a < 0 then NegInf
      else NaN)"

text \<open>\<^verbatim>\<open>x * r\<close> for a finite \<open>r\<close>.\<close>

definition js_times :: "jsnum \<Rightarrow> real \<Rightarrow> jsnum" where
  "js_times x r =
     (case x of
        Fin a \<Rightarrow> Fin (a * r)
      | PosInf \<Rightarrow> (if 0 < r then PosInf else if r < 0 then NegInf else NaN)
      | NegInf \<Rightarrow> (if 0 < r then NegInf else if r < 0 then PosInf else NaN)
      | NaN \<Rightarrow> NaN)"

text \<open>\<^verbatim>\<open>x / r\<close> for a finite \<open>r\<close>.\<close>

definition js_over :: "jsnum \<Rightarrow> real \<Rightarrow> jsnum" where
  "js_over x r =
     (case x of
        Fin a \<Rightarrow> js_div a r
      | PosInf \<Rightarrow> (if 0 \<le> r then PosInf else NegInf)
      | NegInf \<Rightarrow> (if 0 \<le> r then NegInf else PosInf)
      | NaN \<Rightarrow> NaN)"

text \<open>\<^verbatim>\<open>Math.min(x, r)\<close> and \<^verbatim>\<open>Math.max(r, x)\<close> for a finite \<open>r\<close>; both return
  \<^verbatim>\<open>NaN\<close> when an argument is \<^verbatim>\<open>NaN\<close>.\<close>

definition js_min :: "jsnum \<Rightarrow> real \<Rightarrow> jsnum" where
  "js_min x r =
     (case x of Fin a \<Rightarrow> Fin (min a r) | PosInf \<Rightarrow> Fin r | NegInf \<Rightarrow> NegInf | NaN \<Rightarrow> NaN)"

definition js_max :: "real \<Rightarrow> jsnum \<Rightarrow> jsnum" where
  "js_max r x =
     (case x of Fin a \<Rightarrow> Fin (max r a) | PosInf \<Rightarrow> PosInf | NegInf \<Rightarrow> Fin r | NaN \<Rightarrow> NaN)"

section \<open>GeometryEngine\<close>

subsection \<open>Effective minimum gap\<close>

text \<open>
  \<^verbatim>\<open>getEffectiveMinGap(usableHeight, count)\<close>. The first argument \<open>raw\<close> is the value of
  \<^verbatim>\<open>this.getMinGap()\<close> (the CSS variable \<^verbatim>\<open>--timeline-min-gap\<close>, 12 when unset).
  \<^verbatim>\<open>Number.isFinite(usableHeight)\<close> holds for every real.
\<close>

definition getEffectiveMinGap :: "real \<Rightarrow> real \<Rightarrow> nat \<Rightarrow> real" where
  "getEffectiveMinGap raw usableHeight count =
     (if count \<le> 1 then 0
      else if usableHeight \<le> 0 then max 0 raw
      else (let maxGap = usableHeight / max 1 (real count - 1)
            in max 0 (min raw maxGap)))"

subsection \<open>Minimum-gap enforcement\<close>

text \<open>
  The loop \<^verbatim>\<open>for (i = 1; i < n; i++) out[i] = Math.max(x[i], out[i-1] + gap)\<close>, started
  with \<open>prev = out[0]\<close>, over the elements \<open>x[1..]\<close>. The source runs it twice: first over
  the desired positions, then (after the backward pass) over the current \<open>out\<close>.
\<close>

fun forwardPass :: "real \<Rightarrow> real \<Rightarrow> real list \<Rightarrow> real list" where
  "forwardPass gap prev [] = []"
| "forwardPass gap prev (p # ps) =
     (let minAllowed = prev + gap; v = max p minAllowed in v # forwardPass gap v ps)"

text \<open>
  \<^verbatim>\<open>out[n-1] = maxTop; for (i = n-2; i >= 0; i--) out[i] = Math.min(out[i], out[i+1] - gap)\<close>:
  the list is rewritten from its end.
\<close>

fun backwardPass :: "real \<Rightarrow> real \<Rightarrow> real list \<Rightarrow> real list" where
  "backwardPass gap maxTop [] = []"
| "backwardPass gap maxTop [x] = [maxTop]"
| "backwardPass gap maxTop (x # y # ys) =
     (let r = backwardPass gap maxTop (y # ys); maxAllowed = hd r - gap
      in min x maxAllowed # r)"

definition finalClamp :: "real \<Rightarrow> real \<Rightarrow> real \<Rightarrow> real" where
  "finalClamp minTop maxTop x =
     (let x1 = (if x < minTop then minTop else x)
      in if x1 > maxTop then maxTop else x1)"

definition applyMinGap :: "real list \<Rightarrow> real \<Rightarrow> real \<Rightarrow> real \<Rightarrow> real list" where
  "applyMinGap positions minTop maxTop gap =
     (case positions of
        [] \<Rightarrow> positions
      | p0 # ps \<Rightarrow>
          (let first = max minTop (min p0 maxTop);
               out1 = first # forwardPass gap first ps;
               out2 = (if last out1 > maxTop then
                         (let b = backwardPass gap maxTop out1
                          in if hd b < minTop then minTop # forwardPass gap minTop (tl b)
                             else b)
                       else out1)
           in map (finalClamp minTop maxTop) out2))"

subsection \<open>Even distribution\<close>

text \<open>
  \<^verbatim>\<open>updateTimelineGeometry()\<close>, as a function of \<^verbatim>\<open>barHeight\<close> (the bar's
  \<^verbatim>\<open>clientHeight || 0\<close>), the track padding and the marker count. It returns
  \<^verbatim>\<open>this.yPositions\<close> and the list of the markers' new \<^verbatim>\<open>n\<close>. For no marker both
  stay empty.
\<close>

record geometry =
  yPositions :: "real list"
  ns :: "jsnum list"

definition clamp01 :: "jsnum \<Rightarrow> jsnum" where
  "clamp01 n = js_max 0 (js_min n 1)"

definition updateTimelineGeometry :: "real \<Rightarrow> real \<Rightarrow> nat \<Rightarrow> geometry" where
  "updateTimelineGeometry barHeight pad N =
     (let usable = max 0 (barHeight - 2 * pad)
      in if N = 1 then
           (let mid = pad + usable / 2 in \<lparr>yPositions = [mid], ns = [Fin (1/2)]\<rparr>)
         else if N > 1 then
           (let step = usable / max 1 (real N - 1);
                clampedTop = (\<lambda>i. max pad (min (pad + usable) (pad + step * real i)))
            in \<lparr>yPositions = map clampedTop [0..<N],
                ns = map (\<lambda>i. clamp01 (js_div (clampedTop i - pad) usable)) [0..<N]\<rparr>)
         else \<lparr>yPositions = [], ns = []\<rparr>)"

text \<open>The list that \<^verbatim>\<open>applyMinGap\<close> holds in \<^verbatim>\<open>out\<close> just before its final clamp.\<close>

definition beforeClamp :: "real list \<Rightarrow> real \<Rightarrow> real \<Rightarrow> real \<Rightarrow> real list" where
  "beforeClamp positions minTop maxTop gap =
     (case positions of
        [] \<Rightarrow> []
      | p0 # ps \<Rightarrow>
          (let first = max minTop (min p0 maxTop);
               out1 = first # forwardPass gap first ps
           in if last out1 > maxTop then
                (let b = backwardPass gap maxTop out1
                 in if hd b < minTop then minTop # forwardPass gap minTop (tl b) else b)
              else out1))"

section \<open>ScrollSyncController: the active marker\<close>

text \<open>
  Marker ids and the fields \<^verbatim>\<open>activeTurnId\<close> and \<^verbatim>\<open>pendingActiveId\<close> hold
  \<^verbatim>\<open>null\<close>, \<^verbatim>\<open>undefined\<close> or a string. A marker's id is \<^verbatim>\<open>el.dataset.turnId\<close>:
  the value of the attribute \<^verbatim>\<open>data-turn-id\<close>, or \<^verbatim>\<open>undefined\<close> when the element
  has none. \<^verbatim>\<open>!==\<close> on these values is inequality of the datatype; \<open>truthy\<close> is
  JavaScript's conversion to a boolean.
\<close>

datatype jsid = Null | Undefined | Str string

fun truthy :: "jsid \<Rightarrow> bool" where
  "truthy (Str s) = (s \<noteq> [])"
| "truthy Null = False"
| "truthy Undefined = False"

text \<open>
  A user turn element of the conversation: its \<^verbatim>\<open>data-turn-id\<close> attribute, when it
  has one, and the element itself as a handle.
\<close>

record turn_element =
  turnId :: "string option"
  handle :: nat

definition dataset_turnId :: "turn_element \<Rightarrow> jsid" where
  "dataset_turnId el = (case turnId el of None \<Rightarrow> Undefined | Some v \<Rightarrow> Str v)"

text \<open>
  Of a marker, the id and the element are what the active-marker decision reads
  (\<^verbatim>\<open>summary\<close>, \<^verbatim>\<open>n\<close>, \<^verbatim>\<open>baseN\<close> and \<^verbatim>\<open>dotElement\<close> are left out).
\<close>

record marker =
  marker_id :: jsid
  element :: nat

text \<open>
  What \<^verbatim>\<open>computeActiveByScroll\<close> reads from the page:
  \<^verbatim>\<open>scrollContainer.getBoundingClientRect().top\<close>, \<^verbatim>\<open>scrollTop\<close>, \<^verbatim>\<open>clientHeight\<close>,
  and \<^verbatim>\<open>getBoundingClientRect().top\<close> of each turn element.
\<close>

record dom_view =
  containerTop :: real
  scrollTop :: real
  clientHeight :: real
  elementTop :: "nat \<Rightarrow> real"

definition refLine :: "dom_view \<Rightarrow> real" where
  "refLine d = scrollTop d + clientHeight d * (45 / 100)"

text \<open>The document offset \<^verbatim>\<open>top\<close> of a marker, as the loop computes it.\<close>

definition markerTop :: "dom_view \<Rightarrow> marker \<Rightarrow> real" where
  "markerTop d m = elementTop d (element m) - containerTop d + scrollTop d"

text \<open>The loop over the markers, with its \<^verbatim>\<open>break\<close> at the first marker below the line.\<close>

fun scanActive :: "dom_view \<Rightarrow> jsid \<Rightarrow> marker list \<Rightarrow> jsid" where
  "scanActive d activeId [] = activeId"
| "scanActive d activeId (m # ms) =
     (if markerTop d m \<le> refLine d then scanActive d (marker_id m) ms else activeId)"

text \<open>
  The local \<^verbatim>\<open>activeId\<close> after the loop; \<open>None\<close> when the function returns at once
  because there is no marker.
\<close>

definition activeCandidate :: "dom_view \<Rightarrow> marker list \<Rightarrow> jsid option" where
  "activeCandidate d ms =
     (case ms of [] \<Rightarrow> None | m0 # _ \<Rightarrow> Some (scanActive d (marker_id m0) ms))"

text \<open>
  The active state of the manager. \<open>timeouts\<close> is the browser's side of
  \<^verbatim>\<open>setTimeout\<close>/\<^verbatim>\<open>clearTimeout\<close> for the active-change callback: the pending timeouts
  with their handles and due times; handles are positive integers. \<open>activeDotUpdates\<close>
  records every call of \<^verbatim>\<open>updateActiveDotUI()\<close> with the active id it shows.
\<close>

record manager =
  markers :: "marker list"
  activeTurnId :: jsid
  pendingActiveId :: jsid
  activeChangeTimer :: "nat option"
  lastActiveChangeTime :: real
  timeouts :: "(nat \<times> real) list"
  nextHandle :: nat
  activeDotUpdates :: "jsid list"

definition initial :: manager where
  "initial = \<lparr>markers = [], activeTurnId = Null, pendingActiveId = Null,
     activeChangeTimer = None, lastActiveChangeTime = 0, timeouts = [], nextHandle = 0,
     activeDotUpdates = []\<rparr>"

definition minActiveChangeInterval :: real where
  "minActiveChangeInterval = 120"

text \<open>Truthiness of the field \<^verbatim>\<open>activeChangeTimer\<close>: \<^verbatim>\<open>null\<close> or a handle.\<close>

definition timerSet :: "nat option \<Rightarrow> bool" where
  "timerSet t = (case t of None \<Rightarrow> False | Some h \<Rightarrow> h \<noteq> 0)"

definition updateActiveDotUI :: "manager \<Rightarrow> manager" where
  "updateActiveDotUI s = s\<lparr>activeDotUpdates := activeDotUpdates s @ [activeTurnId s]\<rparr>"

text \<open>\<^verbatim>\<open>computeActiveByScroll()\<close>, with the page as it is and the clock reading \<open>now\<close>.\<close>

definition computeActiveByScroll :: "dom_view \<Rightarrow> real \<Rightarrow> manager \<Rightarrow> manager" where
  "computeActiveByScroll d now s =
     (case activeCandidate d (markers s) of
        None \<Rightarrow> s
      | Some activeId \<Rightarrow>
          if activeTurnId s \<noteq> activeId then
            (let since = now - lastActiveChangeTime s
             in if since < minActiveChangeInterval then
                  (let s1 = s\<lparr>pendingActiveId := activeId\<rparr>
                   in if \<not> timerSet (activeChangeTimer s1) then
                        (let delay = max (minActiveChangeInterval - since) 0;
                             h = Suc (nextHandle s1)
                         in s1\<lparr>activeChangeTimer := Some h,
                               timeouts := timeouts s1 @ [(h, now + delay)],
                               nextHandle := h\<rparr>)
                      else s1)
                else (updateActiveDotUI (s\<lparr>activeTurnId := activeId\<rparr>))
                       \<lparr>lastActiveChangeTime := now\<rparr>)
          else s)"

text \<open>The callback given to \<^verbatim>\<open>setTimeout\<close>, run for the timeout \<open>h\<close> at time \<open>now\<close>.\<close>

definition activeChangeTimerFired :: "nat \<Rightarrow> real \<Rightarrow> manager \<Rightarrow> manager" where
  "activeChangeTimerFired h now s =
     (let s0 = s\<lparr>timeouts := filter (\<lambda>t. fst t \<noteq> h) (timeouts s)\<rparr>;
          s1 = s0\<lparr>activeChangeTimer := None\<rparr>;
          s2 = (if truthy (pendingActiveId s1) \<and> pendingActiveId s1 \<noteq> activeTurnId s1 then
                  (updateActiveDotUI (s1\<lparr>activeTurnId := pendingActiveId s1\<rparr>))
                    \<lparr>lastActiveChangeTime := now\<rparr>
                else s1)
      in s2\<lparr>pendingActiveId := Null\<rparr>)"

text \<open>
  \<^verbatim>\<open>recalculateAndRenderMarkers()\<close> on the user turn elements found in the conversation.
  With none it only arms a retry (a later rebuild) and changes nothing here.
\<close>

definition recalculateAndRenderMarkers :: "turn_element list \<Rightarrow> manager \<Rightarrow> manager" where
  "recalculateAndRenderMarkers userTurnElements s =
     (if userTurnElements = [] then s
      else
        (let s1 = s\<lparr>markers :=
                     map (\<lambda>el. \<lparr>marker_id = dataset_turnId el, element = handle el\<rparr>)
                       userTurnElements\<rparr>;
             s2 = (if \<not> truthy (activeTurnId s1) \<and> markers s1 \<noteq> [] then
                     s1\<lparr>activeTurnId := marker_id (last (markers s1))\<rparr>
                   else s1)
         in updateActiveDotUI s2))"

text \<open>\<^verbatim>\<open>destroy()\<close>, as far as it touches the active state.\<close>

definition destroy :: "manager \<Rightarrow> manager" where
  "destroy s =
     (let s1 = s\<lparr>markers := [], activeTurnId := Null\<rparr>;
          s2 = (if timerSet (activeChangeTimer s1) then
                  s1\<lparr>timeouts := filter (\<lambda>t. Some (fst t) \<noteq> activeChangeTimer s1) (timeouts s1),
                     activeChangeTimer := None\<rparr>
                else s1)
      in s2\<lparr>pendingActiveId := Null\<rparr>)"

text \<open>
  The states the manager can reach: marker rebuilds, active-marker recomputations, the
  firing of a pending timeout no earlier than it is due, and teardown, in any order.
  The parameter \<open>allowed\<close> restricts the rebuilds that are considered. The guards of the
  source on \<^verbatim>\<open>scrollContainer\<close>, \<^verbatim>\<open>conversationContainer\<close> and \<^verbatim>\<open>ui.timelineBar\<close>
  only turn a call into a no-op, so leaving them out adds no behaviour but stuttering;
  a rebuild after a teardown stands for one after a new initialisation.
\<close>

inductive reach :: "(manager \<Rightarrow> turn_element list \<Rightarrow> bool) \<Rightarrow> manager \<Rightarrow> bool"
  for allowed :: "manager \<Rightarrow> turn_element list \<Rightarrow> bool" where
  reach_initial: "reach allowed initial"
| reach_rebuild:
    "reach allowed s \<Longrightarrow> allowed s els \<Longrightarrow> reach allowed (recalculateAndRenderMarkers els s)"
| reach_scroll: "reach allowed s \<Longrightarrow> reach allowed (computeActiveByScroll d now s)"
| reach_timer:
    "reach allowed s \<Longrightarrow> (h, due) \<in> set (timeouts s) \<Longrightarrow> due \<le> now \<Longrightarrow>
     reach allowed (activeChangeTimerFired h now s)"
| reach_destroy: "reach allowed s \<Longrightarrow> reach allowed (destroy s)"

definition any_rebuild :: "manager \<Rightarrow> turn_element list \<Rightarrow> bool" where
  "any_rebuild s els = True"


text \<open>A burst of recomputations, one per scroll frame.\<close>

fun scrollAll :: "(dom_view \<times> real) list \<Rightarrow> manager \<Rightarrow> manager" where
  "scrollAll [] s = s"
| "scrollAll ((d, now) # es) s = scrollAll es (computeActiveByScroll d now s)"

text \<open>
  Two invariants of the active state. \<open>timers_ok\<close>: the field \<^verbatim>\<open>activeChangeTimer\<close>
  is \<^verbatim>\<open>null\<close> exactly when no timeout is pending, otherwise it is the handle of the only
  pending timeout; and with no markers there is no active id and no pending timeout.
  \<open>ids_ok\<close>: the active and the pending id are \<^verbatim>\<open>null\<close> or ids of current markers.
\<close>

definition timers_ok :: "manager \<Rightarrow> bool" where
  "timers_ok s =
     ((case activeChangeTimer s of
         None \<Rightarrow> timeouts s = []
       | Some h \<Rightarrow> h \<noteq> 0 \<and> (\<exists>due. timeouts s = [(h, due)]))
      \<and> (markers s = [] \<longrightarrow> activeTurnId s = Null \<and> timeouts s = []))"


text \<open>A candidate change that arrives within the interval is only recorded as pending.\<close>

definition deferred :: "manager \<Rightarrow> dom_view \<times> real \<Rightarrow> bool" where
  "deferred s e =
     (\<exists>c. activeCandidate (fst e) (markers s) = Some c \<and> c \<noteq> activeTurnId s
          \<and> snd e - lastActiveChangeTime s < minActiveChangeInterval)"

section \<open>TooltipLayoutEngine: placement\<close>

datatype side = SideLeft | SideRight

text \<open>
  A rectangle as \<^verbatim>\<open>getBoundingClientRect()\<close> returns it, and the CSS variables that
  \<^verbatim>\<open>computePlacementInfo\<close> reads through \<^verbatim>\<open>getCSSVarNumber\<close>: the stylesheet is
  not part of the sources, so their values are parameters (the fallbacks in the code are
  6, 12, 8 and 288).
\<close>

record rect =
  rect_left :: real
  rect_right :: real
  rect_top :: real
  rect_width :: real
  rect_height :: real

record tooltip_css =
  arrowOut :: real
  baseGap :: real
  boxGap :: real
  maxW :: real

record placement_info =
  placement :: side
  width :: real

definition tiers :: "real list" where
  "tiers = [280, 240, 200, 160]"

definition tooltipGap :: "tooltip_css \<Rightarrow> real" where
  "tooltipGap css = baseGap css + max 0 (arrowOut css) + max 0 (boxGap css)"

definition viewportPad :: real where
  "viewportPad = 8"

definition leftAvail :: "tooltip_css \<Rightarrow> rect \<Rightarrow> real" where
  "leftAvail css dotRect = max 0 (rect_left dotRect - tooltipGap css - viewportPad)"

definition rightAvail :: "tooltip_css \<Rightarrow> rect \<Rightarrow> real \<Rightarrow> real" where
  "rightAvail css dotRect vw = max 0 (vw - rect_right dotRect - tooltipGap css - viewportPad)"

text \<open>\<^verbatim>\<open>tiers.find(t => t <= hardMax) || fallback\<close>; every tier is truthy.\<close>

definition tierFor :: "real \<Rightarrow> real \<Rightarrow> real" where
  "tierFor hardMax fallback =
     (case find (\<lambda>t. t \<le> hardMax) tiers of Some t \<Rightarrow> t | None \<Rightarrow> fallback)"

definition computePlacementInfo :: "tooltip_css \<Rightarrow> rect \<Rightarrow> real \<Rightarrow> placement_info" where
  "computePlacementInfo css dotRect vw =
     (let minW = 160;
          la = leftAvail css dotRect;
          ra = rightAvail css dotRect vw;
          placement0 = (if ra > la then SideRight else SideLeft);
          avail = (if placement0 = SideRight then ra else la);
          hardMax = max minW (min (maxW css) (of_int \<lfloor>avail\<rfloor>));
          width0 = tierFor hardMax (max minW (min hardMax 160));
          p = (if width0 < minW \<and> placement0 = SideLeft \<and> ra > la then
                 (let hardMax2 = max minW (min (maxW css) (of_int \<lfloor>ra\<rfloor>))
                  in \<lparr>placement = SideRight,
                      width = tierFor hardMax2 (max 120 (min hardMax2 minW))\<rparr>)
               else if width0 < minW \<and> placement0 = SideRight \<and> la \<ge> ra then
                 (let hardMax2 = max minW (min (maxW css) (of_int \<lfloor>la\<rfloor>))
                  in \<lparr>placement = SideLeft,
                      width = tierFor hardMax2 (max 120 (min hardMax2 minW))\<rparr>)
               else \<lparr>placement = placement0, width = width0\<rparr>)
      in p\<lparr>width := max 120 (min (width p) (maxW css))\<rparr>)"

text \<open>
  The largest tier that is at most the maximal width \<open>mw\<close> and at most the room \<open>a\<close>, and
  160 when there is none; used to state what \<^verbatim>\<open>computePlacementInfo\<close> returns.
\<close>

definition cappedTier :: "real \<Rightarrow> real \<Rightarrow> real" where
  "cappedTier mw a =
     (if 280 \<le> mw \<and> 280 \<le> a then 280 else if 240 \<le> mw \<and> 240 \<le> a then 240
      else if 200 \<le> mw \<and> 200 \<le> a then 200 else 160)"

text \<open>The room on a side of the anchor, and the opposite side.\<close>

definition availOn :: "side \<Rightarrow> tooltip_css \<Rightarrow> rect \<Rightarrow> real \<Rightarrow> real" where
  "availOn sd css dotRect vw =
     (case sd of SideLeft \<Rightarrow> leftAvail css dotRect | SideRight \<Rightarrow> rightAvail css dotRect vw)"

fun otherSide :: "side \<Rightarrow> side" where
  "otherSide SideLeft = SideRight"
| "otherSide SideRight = SideLeft"

section \<open>DragConstraintEngine: persistence of the position\<close>

text \<open>
  The object that \<^verbatim>\<open>savePosition\<close> stores: percentages of the window size, which are
  quotients by \<^verbatim>\<open>window.innerWidth\<close> and \<^verbatim>\<open>window.innerHeight\<close>, and the window size.
\<close>

record saved_position =
  saved_right :: jsnum
  saved_top :: jsnum
  saved_width :: jsnum
  saved_height :: jsnum
  saved_windowWidth :: real
  saved_windowHeight :: real

definition savePosition :: "rect \<Rightarrow> real \<Rightarrow> real \<Rightarrow> saved_position" where
  "savePosition r windowWidth windowHeight =
     \<lparr>saved_right = js_times (js_div (windowWidth - rect_right r) windowWidth) 100,
      saved_top = js_times (js_div (rect_top r) windowHeight) 100,
      saved_width = js_times (js_div (rect_width r) windowWidth) 100,
      saved_height = js_times (js_div (rect_height r) windowHeight) 100,
      saved_windowWidth = windowWidth,
      saved_windowHeight = windowHeight\<rparr>"

text \<open>
  \<^verbatim>\<open>restorePosition\<close>: what it reads from the storage (\<open>None\<close> when nothing is stored),
  the current window size and the bar's rectangle; it returns the \<^verbatim>\<open>right\<close> and
  \<^verbatim>\<open>top\<close> it writes to the bar's style and the object it stores back.
\<close>

record restored =
  style_right :: jsnum
  style_top :: jsnum
  stored :: saved_position

definition restorePosition ::
  "saved_position option \<Rightarrow> real \<Rightarrow> real \<Rightarrow> rect \<Rightarrow> restored option" where
  "restorePosition storage currentWindowWidth currentWindowHeight barRect =
     (case storage of
        None \<Rightarrow> None
      | Some saved \<Rightarrow>
          (let right = js_times (js_over (saved_right saved) 100) currentWindowWidth;
               top = js_times (js_over (saved_top saved) 100) currentWindowHeight;
               margin = 10;
               barWidth = rect_width barRect;
               barHeight = rect_height barRect;
               maxRight = currentWindowWidth - barWidth - margin;
               maxTop = currentWindowHeight - barHeight - margin
           in Some \<lparr>style_right = js_max margin (js_min right maxRight),
                    style_top = js_max margin (js_min top maxTop),
                    stored = saved\<lparr>saved_windowWidth := currentWindowWidth,
                                   saved_windowHeight := currentWindowHeight\<rparr>\<rparr>))"

section \<open>Example inputs\<close>

text \<open>Markers at the offsets 0, 100 and 250 with the reference line at 120.\<close>

definition page120 :: dom_view where
  "page120 = \<lparr>containerTop = 0, scrollTop = 30, clientHeight = 200,
     elementTop = (\<lambda>e. if e = 0 then -30 else if e = 1 then 70 else 220)\<rparr>"

definition three_markers :: "marker list" where
  "three_markers = [\<lparr>marker_id = Str ''t0'', element = 0\<rparr>,
     \<lparr>marker_id = Str ''t1'', element = 1\<rparr>, \<lparr>marker_id = Str ''t2'', element = 2\<rparr>]"

text \<open>The same markers at the offsets 0, 300 and 100, the reference line at 120.\<close>

definition page_unsorted :: dom_view where
  "page_unsorted = \<lparr>containerTop = 0, scrollTop = 30, clientHeight = 200,
     elementTop = (\<lambda>e. if e = 0 then -30 else if e = 1 then 270 else 70)\<rparr>"

text \<open>The same markers at the offsets 0, 100 and 250 with the reference line at 0.\<close>

definition page_first :: dom_view where
  "page_first = \<lparr>containerTop = 0, scrollTop = 0, clientHeight = 0,
     elementTop = (\<lambda>e. if e = 0 then 0 else if e = 1 then 100 else 250)\<rparr>"

text \<open>Conversations: three turns with ids; one turn; a turn without id before one with.\<close>

definition three_turns :: "turn_element list" where
  "three_turns = [\<lparr>turnId = Some ''t0'', handle = 0\<rparr>, \<lparr>turnId = Some ''t1'', handle = 1\<rparr>,
     \<lparr>turnId = Some ''t2'', handle = 2\<rparr>]"




definition burst :: "(dom_view \<times> real) list" where
  "burst = [(page_first, 10), (page120, 20)]"

text \<open>A dot near the right edge of a window 1000 wide, and a bar in a window 1000 by 800.\<close>

definition dot_right_edge :: rect where
  "dot_right_edge = \<lparr>rect_left = 950, rect_right = 960, rect_top = 300, rect_width = 10,
     rect_height = 10\<rparr>"

definition default_css :: tooltip_css where
  "default_css = \<lparr>arrowOut = 6, baseGap = 12, boxGap = 8, maxW = 288\<rparr>"

definition bar_rect :: rect where
  "bar_rect = \<lparr>rect_left = 936, rect_right = 960, rect_top = 100, rect_width = 24,
     rect_height = 500\<rparr>"

text \<open>A stylesheet that sets \<^verbatim>\<open>--timeline-tooltip-max\<close> to 250.\<close>

definition css250 :: tooltip_css where
  "css250 = \<lparr>arrowOut = 6, baseGap = 12, boxGap = 8, maxW = 250\<rparr>"

text \<open>The bar of the same size at another place of the window.\<close>

definition bar_elsewhere :: rect where
  "bar_elsewhere = \<lparr>rect_left = 500, rect_right = 524, rect_top = 50, rect_width = 24,
     rect_height = 500\<rparr>"

text \<open>A dot in the middle of a window 300 wide.\<close>

definition dot_tight :: rect where
  "dot_tight = \<lparr>rect_left = 140, rect_right = 150, rect_top = 300, rect_width = 10,
     rect_height = 10\<rparr>"

section \<open>Properties of the minimum-gap pass\<close>

lemma length_forwardPass: "length (forwardPass g prev ps) = length ps"
  by (induction ps arbitrary: prev) (simp_all add: Let_def)

lemma length_backwardPass: "length (backwardPass g mx xs) = length xs"
  by (induction g mx xs rule: backwardPass.induct) (simp_all add: Let_def)

lemma backwardPass_nonempty: "xs \<noteq> [] \<Longrightarrow> backwardPass g mx xs \<noteq> []"
  using length_backwardPass [of g mx xs] by auto

lemma gapped_forwardPass:
  "successively (\<lambda>a b. a + g \<le> b) (prev # forwardPass g prev ps)"
  by (induction ps arbitrary: prev) (simp_all add: Let_def)

lemma gapped_backwardPass:
  "successively (\<lambda>a b. a + g \<le> b) (backwardPass g mx xs)"
proof (induction g mx xs rule: backwardPass.induct)
  case (3 g mx x y ys)
  have ne: "backwardPass g mx (y # ys) \<noteq> []"
    by (rule backwardPass_nonempty) simp
  then obtain b bs where b: "backwardPass g mx (y # ys) = b # bs"
    by (cases "backwardPass g mx (y # ys)") auto
  with 3 show ?case by (simp add: Let_def)
qed simp_all

lemma last_backwardPass: "xs \<noteq> [] \<Longrightarrow> last (backwardPass g mx xs) = mx"
proof (induction g mx xs rule: backwardPass.induct)
  case (3 g mx x y ys)
  have "backwardPass g mx (y # ys) \<noteq> []"
    by (rule backwardPass_nonempty) simp
  with 3 show ?case by (simp add: Let_def)
qed simp_all

lemma gapped_sorted:
  assumes "0 \<le> (g :: real)" and "successively (\<lambda>a b. a + g \<le> b) xs"
  shows "sorted xs"
proof -
  have "successively (\<le>) xs"
    using assms(2) by (rule successively_mono) (use assms(1) in auto)
  then show ?thesis
    by (simp add: successively_conv_sorted_wrt transp_on_def)
qed

lemma sorted_bounds:
  assumes "sorted (xs :: real list)" and "x \<in> set xs"
  shows "hd xs \<le> x \<and> x \<le> last xs"
proof -
  from assms(2) obtain i where i: "i < length xs" "xs ! i = x"
    by (auto simp: in_set_conv_nth)
  then have ne: "xs \<noteq> []" by auto
  have "xs ! 0 \<le> xs ! i"
    using assms(1) i(1) by (simp add: sorted_iff_nth_mono)
  moreover have "xs ! i \<le> xs ! (length xs - 1)"
    using assms(1) i(1) by (simp add: sorted_iff_nth_mono)
  ultimately show ?thesis
    using i(2) ne by (simp add: hd_conv_nth last_conv_nth)
qed

lemma finalClamp_eq: "finalClamp lo hi x = min hi (max lo x)"
  by (simp add: finalClamp_def Let_def min_def max_def)

lemma finalClamp_mono: "x \<le> y \<Longrightarrow> finalClamp lo hi x \<le> finalClamp lo hi y"
  by (simp add: finalClamp_eq min_def max_def)

lemma finalClamp_bounds: "lo \<le> hi \<Longrightarrow> lo \<le> finalClamp lo hi x \<and> finalClamp lo hi x \<le> hi"
  by (simp add: finalClamp_eq min_def max_def)

lemma finalClamp_id: "lo \<le> x \<Longrightarrow> x \<le> hi \<Longrightarrow> finalClamp lo hi x = x"
  by (simp add: finalClamp_eq min_def max_def)

lemma sorted_map_finalClamp: "sorted xs \<Longrightarrow> sorted (map (finalClamp lo hi) xs)"
  by (simp add: sorted_iff_nth_mono finalClamp_mono)

lemma applyMinGap_beforeClamp:
  "applyMinGap ps lo hi g = map (finalClamp lo hi) (beforeClamp ps lo hi g)"
  by (simp add: applyMinGap_def beforeClamp_def Let_def split: list.splits)

lemma length_beforeClamp: "length (beforeClamp ps lo hi g) = length ps"
proof (cases ps)
  case (Cons p0 ps')
  have ne: "backwardPass g hi (max lo (min p0 hi) # forwardPass g (max lo (min p0 hi)) ps') \<noteq> []"
    by (rule backwardPass_nonempty) simp
  show ?thesis
    using ne Cons
    by (auto simp: beforeClamp_def Let_def length_forwardPass length_backwardPass
        simp del: backwardPass.simps)
qed (simp add: beforeClamp_def)

lemma gapped_beforeClamp:
  "successively (\<lambda>a b. a + g \<le> b) (beforeClamp ps lo hi g)"
  by (cases ps)
    (simp_all add: beforeClamp_def Let_def gapped_forwardPass gapped_backwardPass
      del: backwardPass.simps forwardPass.simps)

lemma successively_nth:
  "successively P xs \<Longrightarrow> Suc i < length xs \<Longrightarrow> P (xs ! i) (xs ! Suc i)"
  by (induction P xs arbitrary: i rule: successively.induct)
    (auto simp: nth_Cons split: nat.splits)

lemma gapped_head_last:
  "successively (\<lambda>a b. a + g \<le> b) (x # xs) \<Longrightarrow> x + g * real (length xs) \<le> last (x # xs)"
proof (induction xs arbitrary: x)
  case (Cons y ys)
  then have "x + g \<le> y" and "y + g * real (length ys) \<le> last (y # ys)"
    by simp_all
  then show ?case by (simp add: algebra_simps)
qed simp

lemma forwardPass_upper:
  assumes "0 \<le> g"
  shows "prev + g * real (length ps) \<le> mx \<Longrightarrow> successively (\<lambda>a b. a + g \<le> b) ps \<Longrightarrow>
         (ps \<noteq> [] \<longrightarrow> last ps \<le> mx) \<Longrightarrow> \<forall>x\<in>set (forwardPass g prev ps). x \<le> mx"
proof (induction ps arbitrary: prev)
  case (Cons p ps')
  define v where "v = max p (prev + g)"
  have len: "0 \<le> g * real (length ps')"
    using assms by simp
  have "p + g * real (length ps') \<le> last (p # ps')"
    using Cons.prems(2) by (rule gapped_head_last)
  also have "\<dots> \<le> mx"
    using Cons.prems(3) by simp
  finally have p: "p + g * real (length ps') \<le> mx" .
  have "prev + g + g * real (length ps') \<le> mx"
    using Cons.prems(1) by (simp add: algebra_simps)
  with p have v: "v + g * real (length ps') \<le> mx"
    by (simp add: v_def max_def)
  have tail: "successively (\<lambda>a b. a + g \<le> b) ps'"
    using Cons.prems(2) by (cases ps') simp_all
  have lst: "ps' \<noteq> [] \<longrightarrow> last ps' \<le> mx"
    using Cons.prems(3) by auto
  have "\<forall>x\<in>set (forwardPass g v ps'). x \<le> mx"
    using v tail lst by (rule Cons.IH)
  moreover have "v \<le> mx"
    using v len by linarith
  ultimately show ?case
    by (simp add: Let_def v_def)
qed simp

lemma beforeClamp_feasible_bounds:
  assumes g: "0 \<le> g" and le: "lo \<le> hi"
    and feas: "g * (real (length ps) - 1) \<le> hi - lo"
  shows "\<forall>x\<in>set (beforeClamp ps lo hi g). lo \<le> x \<and> x \<le> hi"
proof (cases ps)
  case Nil
  then show ?thesis by (simp add: beforeClamp_def)
next
  case (Cons p0 ps')
  define first where "first = max lo (min p0 hi)"
  define out1 where "out1 = first # forwardPass g first ps'"
  define b where "b = backwardPass g hi out1"
  have first: "lo \<le> first" "first \<le> hi"
    using le by (simp_all add: first_def)
  have so1: "sorted out1"
    unfolding out1_def using g gapped_forwardPass by (rule gapped_sorted)
  have bne: "b \<noteq> []"
    unfolding b_def by (rule backwardPass_nonempty) (simp add: out1_def)
  have gb: "successively (\<lambda>a b. a + g \<le> b) b"
    unfolding b_def by (rule gapped_backwardPass)
  have sb: "sorted b"
    using g gb by (rule gapped_sorted)
  have lb: "last b = hi"
    unfolding b_def by (rule last_backwardPass) (simp add: out1_def)
  have lenb: "length (tl b) = length ps'"
    by (simp add: b_def length_backwardPass out1_def length_forwardPass)
  show ?thesis
  proof (cases "last out1 > hi")
    case False
    have "beforeClamp ps lo hi g = out1"
      using False Cons by (simp add: beforeClamp_def Let_def out1_def first_def)
    moreover have "\<forall>x\<in>set out1. lo \<le> x \<and> x \<le> hi"
    proof
      fix x assume "x \<in> set out1"
      with so1 have "hd out1 \<le> x \<and> x \<le> last out1" by (rule sorted_bounds)
      moreover have "hd out1 = first" by (simp add: out1_def)
      ultimately show "lo \<le> x \<and> x \<le> hi" using first False by linarith
    qed
    ultimately show ?thesis by simp
  next
    case True
    show ?thesis
    proof (cases "hd b < lo")
      case False
      have "beforeClamp ps lo hi g = b"
        using True False Cons
        by (simp add: beforeClamp_def Let_def out1_def first_def b_def
            del: backwardPass.simps)
      moreover have "\<forall>x\<in>set b. lo \<le> x \<and> x \<le> hi"
      proof
        fix x assume "x \<in> set b"
        with sb have "hd b \<le> x \<and> x \<le> last b" by (rule sorted_bounds)
        then show "lo \<le> x \<and> x \<le> hi" using False lb by linarith
      qed
      ultimately show ?thesis by simp
    next
      case hd: True
      define r where "r = lo # forwardPass g lo (tl b)"
      have eq: "beforeClamp ps lo hi g = r"
        using True hd Cons
        by (simp add: beforeClamp_def Let_def out1_def first_def b_def r_def
            del: backwardPass.simps)
      have sr: "sorted r"
        unfolding r_def using g gapped_forwardPass by (rule gapped_sorted)
      have low: "\<forall>x\<in>set r. lo \<le> x"
      proof
        fix x assume "x \<in> set r"
        with sr have "hd r \<le> x \<and> x \<le> last r" by (rule sorted_bounds)
        then show "lo \<le> x" by (simp add: r_def)
      qed
      have pre: "lo + g * real (length (tl b)) \<le> hi"
        using feas Cons lenb by (simp add: algebra_simps)
      have gt: "successively (\<lambda>a b. a + g \<le> b) (tl b)"
        using gb bne by (cases b) (auto simp: successively_Cons)
      have lt: "tl b \<noteq> [] \<longrightarrow> last (tl b) \<le> hi"
        using lb bne by (cases b) auto
      have "\<forall>x\<in>set (forwardPass g lo (tl b)). x \<le> hi"
        using g pre gt lt by (rule forwardPass_upper)
      then have up: "\<forall>x\<in>set r. x \<le> hi"
        using le by (simp add: r_def)
      show ?thesis using eq low up by simp
    qed
  qed
qed

lemma applyMinGap_in_bounds:
  "lo \<le> hi \<Longrightarrow> x \<in> set (applyMinGap ps lo hi g) \<Longrightarrow> lo \<le> x \<and> x \<le> hi"
  by (auto simp: applyMinGap_beforeClamp finalClamp_bounds)

lemma applyMinGap_feasible_eq:
  assumes "0 \<le> g" and "lo \<le> hi" and "g * (real (length ps) - 1) \<le> hi - lo"
  shows "applyMinGap ps lo hi g = beforeClamp ps lo hi g"
proof -
  have "\<forall>x\<in>set (beforeClamp ps lo hi g). lo \<le> x \<and> x \<le> hi"
    using assms by (rule beforeClamp_feasible_bounds)
  then have "map (finalClamp lo hi) (beforeClamp ps lo hi g) = map (\<lambda>x. x) (beforeClamp ps lo hi g)"
    by (intro map_cong) (auto simp: finalClamp_id)
  then show ?thesis
    by (simp add: applyMinGap_beforeClamp)
qed

lemma getEffectiveMinGap_nonneg: "0 \<le> getEffectiveMinGap raw usable count"
  by (simp add: getEffectiveMinGap_def Let_def)

lemma getEffectiveMinGap_capped:
  assumes "2 \<le> count" and "0 < usable"
  shows "getEffectiveMinGap raw usable count = max 0 (min raw (usable / (real count - 1)))"
    and "getEffectiveMinGap raw usable count * (real count - 1) \<le> usable"
proof -
  have c: "1 \<le> real count - 1"
    using assms(1) by simp
  then have m: "max 1 (real count - 1) = real count - 1"
    by simp
  show eq: "getEffectiveMinGap raw usable count = max 0 (min raw (usable / (real count - 1)))"
    using assms m by (simp add: getEffectiveMinGap_def Let_def)
  have pos: "0 < real count - 1"
    using c by linarith
  have q: "0 \<le> usable / (real count - 1)"
    using assms(2) pos by simp
  have "max 0 (min raw (usable / (real count - 1))) \<le> usable / (real count - 1)"
    using q by (simp add: max_def min_def)
  then have "getEffectiveMinGap raw usable count \<le> usable / (real count - 1)"
    by (simp add: eq)
  then show "getEffectiveMinGap raw usable count * (real count - 1) \<le> usable"
    using pos by (simp add: pos_le_divide_eq)
qed

section \<open>Claims about the minimum-gap pass\<close>

text \<open>
  C10. For every list of desired positions, sorted or not, every gap \<open>g \<ge> 0\<close> and all bounds
  \<open>minTop \<le> maxTop\<close>, feasible or not, \<^verbatim>\<open>applyMinGap\<close> returns a list of the same length
  that is non-decreasing and whose elements all lie in \<open>[minTop, maxTop]\<close>.
\<close>

theorem applyMinGap_sorted_in_bounds:
  assumes "0 \<le> g" and "minTop \<le> maxTop"
  shows "length (applyMinGap ps minTop maxTop g) = length ps
       \<and> sorted (applyMinGap ps minTop maxTop g)
       \<and> (\<forall>x\<in>set (applyMinGap ps minTop maxTop g). minTop \<le> x \<and> x \<le> maxTop)"
proof -
  have "sorted (beforeClamp ps minTop maxTop g)"
    using assms(1) gapped_beforeClamp by (rule gapped_sorted)
  then have "sorted (applyMinGap ps minTop maxTop g)"
    by (simp only: applyMinGap_beforeClamp sorted_map_finalClamp)
  moreover have "length (applyMinGap ps minTop maxTop g) = length ps"
    by (simp add: applyMinGap_beforeClamp length_beforeClamp)
  ultimately show ?thesis
    using applyMinGap_in_bounds [OF assms(2)] by blast
qed

theorem applyMinGap_sorted_in_bounds_witness:
  "(0::real) \<le> 15 \<and> (0::real) \<le> 20
   \<and> applyMinGap [50, 10, 30] 0 20 15 = [0, 15, 20]
   \<and> length (applyMinGap [50, 10, 30] 0 20 15) = length [50, 10, 30 :: real]
   \<and> sorted (applyMinGap [50, 10, 30] 0 20 15)
   \<and> 0 \<le> applyMinGap [50, 10, 30] 0 20 15 ! 2
   \<and> applyMinGap [50, 10, 30] 0 20 15 ! 2 \<le> 20"
proof -
  have h1: "(0::real) \<le> 15" and h2: "(0::real) \<le> 20"
    by simp_all
  have v: "applyMinGap [50, 10, 30] 0 20 15 = [0, 15, 20]"
    by (simp add: applyMinGap_def finalClamp_def Let_def)
  have m: "applyMinGap [50, 10, 30] 0 20 15 ! 2 \<in> set (applyMinGap [50, 10, 30] 0 20 15)"
    by (simp add: v)
  show ?thesis
    using applyMinGap_sorted_in_bounds [OF h1 h2, of "[50, 10, 30]"] h1 h2 v m by blast
qed

text \<open>
  C1, as the code has it. For a gap \<open>g \<ge> 0\<close> and bounds \<open>minTop \<le> maxTop\<close> with
  \<open>g * (N - 1) \<le> maxTop - minTop\<close>, adjacent outputs of \<^verbatim>\<open>applyMinGap\<close> differ by at least
  \<open>g\<close> and every output lies in \<open>[minTop, maxTop]\<close>. For two or more markers and a positive
  usable height, \<^verbatim>\<open>getEffectiveMinGap\<close> returns the raw gap capped at
  \<open>usableHeight / (N - 1)\<close> (and floored at 0), which is feasible. For every usable height
  \<open>\<ge> 0\<close>, also 0 where the gap is not capped, the output for the effective gap lies within
  the bounds.
\<close>

theorem applyMinGap_feasible_gap:
  "(0 \<le> g \<and> minTop \<le> maxTop \<and> g * (real (length ps) - 1) \<le> maxTop - minTop \<longrightarrow>
      (\<forall>i. Suc i < length (applyMinGap ps minTop maxTop g) \<longrightarrow>
           applyMinGap ps minTop maxTop g ! i + g \<le> applyMinGap ps minTop maxTop g ! Suc i)
      \<and> (\<forall>x\<in>set (applyMinGap ps minTop maxTop g). minTop \<le> x \<and> x \<le> maxTop))
   \<and> (2 \<le> count \<and> 0 < usable \<longrightarrow>
        getEffectiveMinGap raw usable count = max 0 (min raw (usable / (real count - 1)))
        \<and> getEffectiveMinGap raw usable count * (real count - 1) \<le> usable)
   \<and> (0 \<le> usable \<longrightarrow>
        (\<forall>x\<in>set (applyMinGap ps minTop (minTop + usable)
                     (getEffectiveMinGap raw usable (length ps))).
            minTop \<le> x \<and> x \<le> minTop + usable))"
proof (intro conjI impI allI)
  fix i
  assume a: "0 \<le> g \<and> minTop \<le> maxTop \<and> g * (real (length ps) - 1) \<le> maxTop - minTop"
    and i: "Suc i < length (applyMinGap ps minTop maxTop g)"
  from a have eq: "applyMinGap ps minTop maxTop g = beforeClamp ps minTop maxTop g"
    by (intro applyMinGap_feasible_eq) simp_all
  have "successively (\<lambda>a b. a + g \<le> b) (applyMinGap ps minTop maxTop g)"
    by (simp only: eq gapped_beforeClamp)
  then show "applyMinGap ps minTop maxTop g ! i + g \<le> applyMinGap ps minTop maxTop g ! Suc i"
    using i by (rule successively_nth)
next
  assume "0 \<le> g \<and> minTop \<le> maxTop \<and> g * (real (length ps) - 1) \<le> maxTop - minTop"
  then show "\<forall>x\<in>set (applyMinGap ps minTop maxTop g). minTop \<le> x \<and> x \<le> maxTop"
    using applyMinGap_in_bounds by blast
next
  assume "2 \<le> count \<and> 0 < usable"
  then show "getEffectiveMinGap raw usable count = max 0 (min raw (usable / (real count - 1)))"
    using getEffectiveMinGap_capped(1) by blast
next
  assume "2 \<le> count \<and> 0 < usable"
  then show "getEffectiveMinGap raw usable count * (real count - 1) \<le> usable"
    using getEffectiveMinGap_capped(2) by blast
next
  assume "0 \<le> usable"
  then have "minTop \<le> minTop + usable" by simp
  then show "\<forall>x\<in>set (applyMinGap ps minTop (minTop + usable)
                     (getEffectiveMinGap raw usable (length ps))).
            minTop \<le> x \<and> x \<le> minTop + usable"
    using applyMinGap_in_bounds by blast
qed

theorem applyMinGap_feasible_gap_witness:
  "((0::real) \<le> 5 \<and> (0::real) \<le> 10 \<and> 5 * (real (length [3, 3, 3 :: real]) - 1) \<le> (10::real) - 0)
   \<and> (2 \<le> (3::nat) \<and> (0::real) < 10)
   \<and> (0::real) \<le> 10
   \<and> applyMinGap [3, 3, 3] 0 10 5 = [0, 5, 10]
   \<and> getEffectiveMinGap 12 10 3 = 5
   \<and> applyMinGap [3, 3, 3] 0 10 5 ! 1 + 5 \<le> applyMinGap [3, 3, 3] 0 10 5 ! Suc 1
   \<and> 0 \<le> applyMinGap [3, 3, 3] 0 10 5 ! 2
   \<and> applyMinGap [3, 3, 3] 0 10 5 ! 2 \<le> 10
   \<and> getEffectiveMinGap 12 10 3 * (real (3::nat) - 1) \<le> 10
   \<and> applyMinGap [3, 3, 3] 0 (0 + 10) (getEffectiveMinGap 12 10 (length [3, 3, 3 :: real])) ! 2
        \<le> 0 + 10"
proof -
  have h: "(0::real) \<le> 5 \<and> (0::real) \<le> 10 \<and> 5 * (real (length [3, 3, 3 :: real]) - 1) \<le> (10::real) - 0"
    by simp
  have k: "2 \<le> (3::nat) \<and> (0::real) < 10"
    by simp
  have u: "(0::real) \<le> 10"
    by simp
  have v: "applyMinGap [3, 3, 3] 0 10 5 = [0, 5, 10]"
    by (simp add: applyMinGap_def finalClamp_def Let_def)
  have e: "getEffectiveMinGap 12 10 3 = 5"
    by (simp add: getEffectiveMinGap_def Let_def)
  have i: "Suc 1 < length (applyMinGap [3, 3, 3] 0 10 5)"
    by (simp add: v)
  have l3: "length [3, 3, 3 :: real] = 3"
    by simp
  have m: "applyMinGap [3, 3, 3] 0 10 5 ! 2 \<in> set (applyMinGap [3, 3, 3] 0 10 5)"
    by (simp add: v)
  have m': "applyMinGap [3, 3, 3] 0 (0 + 10) (getEffectiveMinGap 12 10 (length [3, 3, 3 :: real])) ! 2
      \<in> set (applyMinGap [3, 3, 3] 0 (0 + 10) (getEffectiveMinGap 12 10 (length [3, 3, 3 :: real])))"
    unfolding l3 e by (simp add: v)
  note t = applyMinGap_feasible_gap [where g = 5 and minTop = 0 and maxTop = 10
      and ps = "[3, 3, 3]" and count = 3 and usable = 10 and raw = 12]
  show ?thesis
    using t h k u v e i m m' by blast
qed

text \<open>
  With no usable height the gap is not capped: for a raw gap of 12, three markers and a
  usable height of 0, \<open>g * (N - 1) = 24\<close> exceeds the usable height, and the effective gap
  is still 12, not \<open>usableHeight / (N - 1) = 0\<close>.
\<close>

theorem getEffectiveMinGap_uncapped_counterexample:
  "(12::real) * (real (3::nat) - 1) > 0
   \<and> getEffectiveMinGap 12 0 3 = 12
   \<and> \<not> getEffectiveMinGap 12 0 3 \<le> 0 / (real (3::nat) - 1)"
  by (simp add: getEffectiveMinGap_def)

section \<open>Claims about the even distribution\<close>

lemma updateTimelineGeometry_even:
  assumes N: "2 \<le> N" and H: "2 * P < H"
  shows "yPositions (updateTimelineGeometry H P N) =
         map (\<lambda>i. P + (H - 2 * P) / (real N - 1) * real i) [0..<N]"
proof -
  define usable where "usable = max 0 (H - 2 * P)"
  have usable: "usable = H - 2 * P" "0 < usable"
    using H by (simp_all add: usable_def)
  have d: "max 1 (real N - 1) = real N - 1" "0 < real N - 1"
    using N by simp_all
  have inner: "max P (min (P + usable) (P + usable / (real N - 1) * real i))
               = P + usable / (real N - 1) * real i" if "i < N" for i
  proof -
    have "real i \<le> real N - 1"
      using that by (simp add: of_nat_diff)
    then have "usable * real i \<le> usable * (real N - 1)"
      using usable(2) by (simp add: mult_left_mono)
    then have "usable / (real N - 1) * real i \<le> usable"
      using d(2) by (simp add: pos_divide_le_eq)
    moreover have "0 \<le> usable / (real N - 1) * real i"
      using usable(2) d(2) by simp
    ultimately show ?thesis by (simp add: max_def min_def)
  qed
  have "yPositions (updateTimelineGeometry H P N) =
        map (\<lambda>i. max P (min (P + usable) (P + usable / (real N - 1) * real i))) [0..<N]"
    using N d(1) by (simp add: updateTimelineGeometry_def Let_def usable_def)
  also have "\<dots> = map (\<lambda>i. P + usable / (real N - 1) * real i) [0..<N]"
  proof (rule map_cong)
    show "[0..<N] = [0..<N]" by (rule refl)
  next
    fix i assume "i \<in> set [0..<N]"
    then have "i < N" by simp
    then show "max P (min (P + usable) (P + usable / (real N - 1) * real i))
               = P + usable / (real N - 1) * real i"
      by (rule inner)
  qed
  finally show ?thesis
    by (simp add: usable(1))
qed

text \<open>
  C2, as the code has it. For \<open>N \<ge> 2\<close> markers and a bar higher than twice the padding
  (\<open>H > 2 * P\<close>, that is a positive usable height), the positions computed by
  \<^verbatim>\<open>updateTimelineGeometry\<close> strictly increase with the index and lie within \<open>[P, H - P]\<close>.
\<close>

theorem updateTimelineGeometry_increasing:
  assumes "2 \<le> N" and "2 * P < H"
  shows "length (yPositions (updateTimelineGeometry H P N)) = N
       \<and> (\<forall>i j. i < j \<and> j < N \<longrightarrow>
             yPositions (updateTimelineGeometry H P N) ! i
               < yPositions (updateTimelineGeometry H P N) ! j)
       \<and> (\<forall>i<N. P \<le> yPositions (updateTimelineGeometry H P N) ! i
               \<and> yPositions (updateTimelineGeometry H P N) ! i \<le> H - P)"
proof -
  define step where "step = (H - 2 * P) / (real N - 1)"
  have ys: "yPositions (updateTimelineGeometry H P N) = map (\<lambda>i. P + step * real i) [0..<N]"
    using assms by (simp add: updateTimelineGeometry_even step_def)
  have d: "0 < real N - 1"
    using assms(1) by simp
  have step: "0 < step"
    using assms(2) d by (simp add: step_def)
  have top: "step * (real N - 1) = H - 2 * P"
    using d by (simp add: step_def)
  have mono: "P + step * real i < P + step * real j" if "i < j" for i j :: nat
    using that step by simp
  have bnd: "P \<le> P + step * real i \<and> P + step * real i \<le> H - P" if "i < N" for i
  proof -
    have "real i \<le> real N - 1"
      using that by (simp add: of_nat_diff)
    then have "step * real i \<le> step * (real N - 1)"
      using step by (simp add: mult_left_mono)
    then have "step * real i \<le> H - 2 * P"
      by (simp only: top)
    moreover have "0 \<le> step * real i"
      using step by simp
    ultimately show ?thesis by linarith
  qed
  show ?thesis
    using mono bnd by (simp add: ys)
qed

theorem updateTimelineGeometry_increasing_witness:
  "2 \<le> (3::nat) \<and> (2::real) * 12 < 200
   \<and> yPositions (updateTimelineGeometry 200 12 3) = [12, 100, 188]
   \<and> length (yPositions (updateTimelineGeometry 200 12 3)) = 3
   \<and> yPositions (updateTimelineGeometry 200 12 3) ! 1
        < yPositions (updateTimelineGeometry 200 12 3) ! 2
   \<and> 12 \<le> yPositions (updateTimelineGeometry 200 12 3) ! 2
   \<and> yPositions (updateTimelineGeometry 200 12 3) ! 2 \<le> 200 - 12"
proof -
  have h1: "2 \<le> (3::nat)" and h2: "(2::real) * 12 < 200"
    by simp_all
  have v: "yPositions (updateTimelineGeometry 200 12 3) = [12, 100, 188]"
    by (simp add: updateTimelineGeometry_def Let_def eval_nat_numeral)
  have i: "(1::nat) < 2 \<and> (2::nat) < 3"
    by simp
  show ?thesis
    using updateTimelineGeometry_increasing [OF h1 h2] h1 h2 v i by blast
qed

text \<open>
  A bar no higher than twice the padding has no usable height: for \<open>H = 20\<close>, \<open>P = 12\<close> and
  two markers both positions are 12, which is neither strictly increasing nor within
  \<open>[P, H - P] = [12, 8]\<close>.
\<close>

theorem updateTimelineGeometry_flat_counterexample:
  "yPositions (updateTimelineGeometry 20 12 2) = [12, 12]
   \<and> \<not> yPositions (updateTimelineGeometry 20 12 2) ! 0
        < yPositions (updateTimelineGeometry 20 12 2) ! 1
   \<and> \<not> yPositions (updateTimelineGeometry 20 12 2) ! 0 \<le> 20 - 12"
  by (simp add: updateTimelineGeometry_def Let_def eval_nat_numeral)

text \<open>
  C3, as the code has it. A single marker gets \<open>n = 0.5\<close> and the pixel position
  \<open>padding + usable / 2\<close>, the middle of the bar; for a bar height of 200 and a padding
  of 12 that is 100.
\<close>

theorem updateTimelineGeometry_single:
  "ns (updateTimelineGeometry H P 1) = [Fin (1/2)]
   \<and> yPositions (updateTimelineGeometry H P 1) = [P + max 0 (H - 2 * P) / 2]
   \<and> yPositions (updateTimelineGeometry 200 12 1) = [100]"
  by (simp add: updateTimelineGeometry_def Let_def)

text \<open>The pixel position for a bar height of 200 and a padding of 12 is not 106.\<close>

theorem updateTimelineGeometry_single_counterexample:
  "yPositions (updateTimelineGeometry 200 12 1) \<noteq> [106]"
  by (simp add: updateTimelineGeometry_def Let_def)

text \<open>
  C8. The normalized position of \<^verbatim>\<open>updateTimelineGeometry\<close> is the quotient
  \<^verbatim>\<open>(clampedTop - pad) / usable\<close>, whose denominator is floored to 0, not to 1. For two
  markers on a bar of height 0 with padding 12 the quotient is \<^verbatim>\<open>0/0\<close> and both markers
  get \<^verbatim>\<open>NaN\<close>.
\<close>

theorem updateTimelineGeometry_zero_height_NaN:
  "max 0 ((0::real) - 2 * 12) = 0
   \<and> ns (updateTimelineGeometry 0 12 2) = [NaN, NaN]"
  by (simp add: updateTimelineGeometry_def Let_def eval_nat_numeral clamp01_def js_div_def
      js_min_def js_max_def)

section \<open>Claims about the active marker\<close>

lemma scanActive_sorted:
  "sorted (map (markerTop d) ms) \<Longrightarrow>
   scanActive d a ms =
     (if filter (\<lambda>m. markerTop d m \<le> refLine d) ms = [] then a
      else marker_id (last (filter (\<lambda>m. markerTop d m \<le> refLine d) ms)))"
proof (induction ms arbitrary: a)
  case (Cons m ms)
  show ?case
  proof (cases "markerTop d m \<le> refLine d")
    case True
    moreover have "sorted (map (markerTop d) ms)"
      using Cons.prems by simp
    ultimately show ?thesis
      using Cons.IH [of "marker_id m"] by simp
  next
    case False
    have "\<forall>x\<in>set ms. markerTop d m \<le> markerTop d x"
      using Cons.prems by simp
    then have "\<forall>x\<in>set ms. \<not> markerTop d x \<le> refLine d"
      using False by force
    then have "filter (\<lambda>m. markerTop d m \<le> refLine d) ms = []"
      by (simp add: filter_empty_conv)
    then show ?thesis
      using False by simp
  qed
qed simp

text \<open>
  C4, as the code has it. For every non-empty marker list whose document offsets do not
  decrease in document order, \<^verbatim>\<open>computeActiveByScroll\<close> selects the last marker whose
  offset is at most the reference line \<open>scrollTop + clientHeight * 0.45\<close>, and the first
  marker when there is none.
\<close>

theorem activeCandidate_last_passed:
  assumes "ms \<noteq> []" and "sorted (map (markerTop d) ms)"
  shows "activeCandidate d ms =
         Some (marker_id
           (if filter (\<lambda>m. markerTop d m \<le> refLine d) ms = [] then hd ms
            else last (filter (\<lambda>m. markerTop d m \<le> refLine d) ms)))"
proof -
  from assms(1) obtain m0 ms' where ms: "ms = m0 # ms'"
    by (cases ms) auto
  have "activeCandidate d ms = Some (scanActive d (marker_id m0) ms)"
    by (simp add: activeCandidate_def ms)
  also have "scanActive d (marker_id m0) ms =
     (if filter (\<lambda>m. markerTop d m \<le> refLine d) ms = [] then marker_id m0
      else marker_id (last (filter (\<lambda>m. markerTop d m \<le> refLine d) ms)))"
    using assms(2) by (rule scanActive_sorted)
  finally show ?thesis
    by (simp add: ms)
qed

theorem activeCandidate_last_passed_witness:
  "three_markers \<noteq> []
   \<and> map (markerTop page120) three_markers = [0, 100, 250]
   \<and> sorted (map (markerTop page120) three_markers)
   \<and> refLine page120 = 120
   \<and> activeCandidate page120 three_markers = Some (Str ''t1'')"
proof -
  have h1: "three_markers \<noteq> []"
    by (simp add: three_markers_def)
  have tops: "map (markerTop page120) three_markers = [0, 100, 250]"
    by (simp add: three_markers_def page120_def markerTop_def)
  have h2: "sorted (map (markerTop page120) three_markers)"
    by (simp add: tops)
  have r: "refLine page120 = 120"
    by (simp add: refLine_def page120_def)
  have f: "filter (\<lambda>m. markerTop page120 m \<le> refLine page120) three_markers
           = [\<lparr>marker_id = Str ''t0'', element = 0\<rparr>, \<lparr>marker_id = Str ''t1'', element = 1\<rparr>]"
    by (simp add: r) (simp add: three_markers_def page120_def markerTop_def)
  have c: "activeCandidate page120 three_markers = Some (Str ''t1'')"
    using activeCandidate_last_passed [OF h1 h2] unfolding f by simp
  show ?thesis
    using h1 tops h2 r c by blast
qed

text \<open>
  Offsets that decrease: markers at 0, 300 and 100 with the reference line at 120. The
  last marker at or above the line is the third, but the loop stops at the second and
  selects the first.
\<close>

theorem activeCandidate_unsorted_counterexample:
  "map (markerTop page_unsorted) three_markers = [0, 300, 100]
   \<and> refLine page_unsorted = 120
   \<and> marker_id (last (filter (\<lambda>m. markerTop page_unsorted m \<le> refLine page_unsorted)
        three_markers)) = Str ''t2''
   \<and> activeCandidate page_unsorted three_markers = Some (Str ''t0'')"
  by (simp add: three_markers_def page_unsorted_def markerTop_def refLine_def
      activeCandidate_def)

section \<open>Invariants of the active state\<close>



lemma activeCandidate_nonempty: "activeCandidate d ms = Some c \<Longrightarrow> ms \<noteq> []"
  by (auto simp: activeCandidate_def)

lemma timers_ok_initial: "timers_ok initial"
  by (simp add: timers_ok_def initial_def)

lemma timers_ok_rebuild: "timers_ok s \<Longrightarrow> timers_ok (recalculateAndRenderMarkers els s)"
  by (auto simp: timers_ok_def recalculateAndRenderMarkers_def updateActiveDotUI_def Let_def
      split: option.splits)

lemma timers_ok_scroll:
  assumes "timers_ok s"
  shows "timers_ok (computeActiveByScroll d now s)"
proof (cases "activeCandidate d (markers s)")
  case None
  then show ?thesis
    using assms by (simp add: computeActiveByScroll_def)
next
  case (Some c)
  then have ne: "markers s \<noteq> []"
    by (rule activeCandidate_nonempty)
  show ?thesis
    using assms Some ne
    by (auto simp: timers_ok_def computeActiveByScroll_def updateActiveDotUI_def Let_def
        timerSet_def split: option.splits)
qed

lemma timers_ok_timer:
  assumes "timers_ok s" and "(h, due) \<in> set (timeouts s)"
  shows "timers_ok (activeChangeTimerFired h now s)"
proof -
  from assms have ne: "markers s \<noteq> []" and one: "timeouts s = [(h, due)]"
    by (auto simp: timers_ok_def split: option.splits)
  then show ?thesis
    by (simp add: timers_ok_def activeChangeTimerFired_def updateActiveDotUI_def Let_def)
qed

lemma timers_ok_destroy: "timers_ok s \<Longrightarrow> timers_ok (destroy s)"
  by (auto simp: timers_ok_def destroy_def Let_def timerSet_def split: option.splits)

lemma reach_timers_ok: "reach allowed s \<Longrightarrow> timers_ok s"
  by (induction rule: reach.induct)
    (simp_all add: timers_ok_initial timers_ok_rebuild timers_ok_scroll timers_ok_timer
      timers_ok_destroy)









lemma reach_three_turns: "reach allowed (recalculateAndRenderMarkers three_turns initial)"
  if "allowed initial three_turns"
  using reach_initial that by (rule reach_rebuild)

lemma three_turns_state:
  "recalculateAndRenderMarkers three_turns initial =
   \<lparr>markers = three_markers, activeTurnId = Str ''t2'', pendingActiveId = Null,
    activeChangeTimer = None, lastActiveChangeTime = 0, timeouts = [], nextHandle = 0,
    activeDotUpdates = [Str ''t2'']\<rparr>"
  by (simp add: recalculateAndRenderMarkers_def three_turns_def three_markers_def initial_def
      updateActiveDotUI_def dataset_turnId_def Let_def)

lemma candidate_page_first: "activeCandidate page_first three_markers = Some (Str ''t0'')"
  by (simp add: activeCandidate_def three_markers_def page_first_def markerTop_def refLine_def)

lemma candidate_page120: "activeCandidate page120 three_markers = Some (Str ''t1'')"
  by (simp add: activeCandidate_def three_markers_def page120_def markerTop_def refLine_def)




section \<open>Coalescing of active-id changes\<close>

lemma reach_scrollAll: "reach allowed s \<Longrightarrow> reach allowed (scrollAll es s)"
proof (induction es arbitrary: s)
  case (Cons e es)
  obtain d now where e: "e = (d, now)"
    by (cases e)
  have "reach allowed (computeActiveByScroll d now s)"
    using Cons.prems by (rule reach_scroll)
  then show ?case
    unfolding e scrollAll.simps by (rule Cons.IH)
qed simp

lemma computeActiveByScroll_deferred:
  assumes "activeCandidate d (markers s) = Some c" and "c \<noteq> activeTurnId s"
    and "now - lastActiveChangeTime s < minActiveChangeInterval"
  shows "markers (computeActiveByScroll d now s) = markers s"
    and "activeTurnId (computeActiveByScroll d now s) = activeTurnId s"
    and "lastActiveChangeTime (computeActiveByScroll d now s) = lastActiveChangeTime s"
    and "activeDotUpdates (computeActiveByScroll d now s) = activeDotUpdates s"
    and "pendingActiveId (computeActiveByScroll d now s) = c"
    and "timerSet (activeChangeTimer (computeActiveByScroll d now s))"
  using assms by (auto simp: computeActiveByScroll_def Let_def timerSet_def)

lemma scrollAll_deferred:
  assumes "es \<noteq> []" and "\<forall>e\<in>set es. deferred s e"
  shows "markers (scrollAll es s) = markers s
       \<and> activeTurnId (scrollAll es s) = activeTurnId s
       \<and> lastActiveChangeTime (scrollAll es s) = lastActiveChangeTime s
       \<and> activeDotUpdates (scrollAll es s) = activeDotUpdates s
       \<and> Some (pendingActiveId (scrollAll es s)) = activeCandidate (fst (last es)) (markers s)
       \<and> timerSet (activeChangeTimer (scrollAll es s))"
  using assms
proof (induction es arbitrary: s)
  case (Cons e es)
  obtain d now where e: "e = (d, now)"
    by (cases e)
  from Cons.prems(2) obtain c where c: "activeCandidate d (markers s) = Some c"
      "c \<noteq> activeTurnId s" "now - lastActiveChangeTime s < minActiveChangeInterval"
    by (auto simp: deferred_def e)
  define s' where "s' = computeActiveByScroll d now s"
  note step = computeActiveByScroll_deferred [OF c, folded s'_def]
  show ?case
  proof (cases "es = []")
    case True
    then show ?thesis
      using step c(1) by (simp add: e s'_def [symmetric])
  next
    case False
    have "\<forall>e\<in>set es. deferred s' e"
      using Cons.prems(2) step(1,2,3) by (simp add: deferred_def)
    with False have "markers (scrollAll es s') = markers s'
       \<and> activeTurnId (scrollAll es s') = activeTurnId s'
       \<and> lastActiveChangeTime (scrollAll es s') = lastActiveChangeTime s'
       \<and> activeDotUpdates (scrollAll es s') = activeDotUpdates s'
       \<and> Some (pendingActiveId (scrollAll es s')) = activeCandidate (fst (last es)) (markers s')
       \<and> timerSet (activeChangeTimer (scrollAll es s'))"
      by (rule Cons.IH)
    then show ?thesis
      using False step(1,2,3,4) by (simp add: e s'_def [symmetric])
  qed
qed simp

lemma timers_ok_pending:
  assumes "timers_ok s" and "timerSet (activeChangeTimer s)"
  shows "\<exists>h due. timeouts s = [(h, due)]"
  using assms by (auto simp: timers_ok_def timerSet_def split: option.splits)

lemma activeChangeTimerFired_commit:
  assumes "timeouts s = [(h, due)]" and "truthy (pendingActiveId s)"
    and "pendingActiveId s \<noteq> activeTurnId s"
  shows "activeTurnId (activeChangeTimerFired h now s) = pendingActiveId s"
    and "activeDotUpdates (activeChangeTimerFired h now s) = activeDotUpdates s @ [pendingActiveId s]"
    and "timeouts (activeChangeTimerFired h now s) = []"
    and "lastActiveChangeTime (activeChangeTimerFired h now s) = now"
  using assms by (simp_all add: activeChangeTimerFired_def updateActiveDotUI_def Let_def)

text \<open>
  Coalescing for truthy candidates. Take a reachable state and a burst of \<open>K \<ge> 1\<close>
  recomputations, each with a candidate that differs from the active id and each within
  \<^verbatim>\<open>minActiveChangeInterval\<close> of the last committed change. The burst commits nothing
  and leaves exactly one timeout pending. If the last candidate is truthy (a non-empty
  string), the firing of that timeout commits exactly one change, to the last candidate.
\<close>

lemma coalesced_commit:
  assumes "reach any_rebuild s" and "es \<noteq> []" and "\<forall>e\<in>set es. deferred s e"
    and "activeCandidate (fst (last es)) (markers s) = Some cK" and "truthy cK"
  shows "activeTurnId (scrollAll es s) = activeTurnId s
       \<and> activeDotUpdates (scrollAll es s) = activeDotUpdates s
       \<and> (\<exists>h due. timeouts (scrollAll es s) = [(h, due)]
            \<and> activeTurnId (activeChangeTimerFired h now (scrollAll es s)) = cK
            \<and> activeDotUpdates (activeChangeTimerFired h now (scrollAll es s))
                = activeDotUpdates s @ [cK]
            \<and> timeouts (activeChangeTimerFired h now (scrollAll es s)) = [])"
proof -
  define s' where "s' = scrollAll es s"
  have b: "markers s' = markers s \<and> activeTurnId s' = activeTurnId s
       \<and> lastActiveChangeTime s' = lastActiveChangeTime s
       \<and> activeDotUpdates s' = activeDotUpdates s
       \<and> Some (pendingActiveId s') = activeCandidate (fst (last es)) (markers s)
       \<and> timerSet (activeChangeTimer s')"
    unfolding s'_def using assms(2,3) by (rule scrollAll_deferred)
  then have p: "pendingActiveId s' = cK"
    using assms(4) by simp
  have "last es \<in> set es"
    using assms(2) by simp
  then have "deferred s (last es)"
    using assms(3) by blast
  then have ne: "cK \<noteq> activeTurnId s"
    using assms(4) by (auto simp: deferred_def)
  have "reach any_rebuild s'"
    unfolding s'_def using assms(1) by (rule reach_scrollAll)
  then have "timers_ok s'"
    by (rule reach_timers_ok)
  then obtain h due where t: "timeouts s' = [(h, due)]"
    using b timers_ok_pending by blast
  have tr: "truthy (pendingActiveId s')" and ne': "pendingActiveId s' \<noteq> activeTurnId s'"
    using p ne b assms(5) by simp_all
  note c = activeChangeTimerFired_commit [OF t tr ne', of now]
  have "activeTurnId (activeChangeTimerFired h now s') = cK
      \<and> activeDotUpdates (activeChangeTimerFired h now s') = activeDotUpdates s @ [cK]
      \<and> timeouts (activeChangeTimerFired h now s') = []"
    using c(1,2,3) p b by simp
  with t b show ?thesis
    unfolding s'_def by blast
qed

lemma deferred_burst:
  "\<forall>e\<in>set burst. deferred (recalculateAndRenderMarkers three_turns initial) e"
  by (simp add: burst_def deferred_def three_turns_state candidate_page_first
      candidate_page120 minActiveChangeInterval_def)

lemma coalesced_commit_example:
  "reach any_rebuild (recalculateAndRenderMarkers three_turns initial)
   \<and> burst \<noteq> []
   \<and> deferred (recalculateAndRenderMarkers three_turns initial) (page_first, 10)
   \<and> deferred (recalculateAndRenderMarkers three_turns initial) (page120, 20)
   \<and> activeCandidate (fst (last burst)) (markers (recalculateAndRenderMarkers three_turns initial))
       = Some (Str ''t1'')
   \<and> truthy (Str ''t1'')
   \<and> activeTurnId (recalculateAndRenderMarkers three_turns initial) = Str ''t2''
   \<and> activeTurnId (scrollAll burst (recalculateAndRenderMarkers three_turns initial))
       = activeTurnId (recalculateAndRenderMarkers three_turns initial)
   \<and> activeDotUpdates (scrollAll burst (recalculateAndRenderMarkers three_turns initial))
       = activeDotUpdates (recalculateAndRenderMarkers three_turns initial)
   \<and> (\<exists>h due. timeouts (scrollAll burst (recalculateAndRenderMarkers three_turns initial))
         = [(h, due)]
       \<and> activeTurnId (activeChangeTimerFired h 125
           (scrollAll burst (recalculateAndRenderMarkers three_turns initial))) = Str ''t1''
       \<and> activeDotUpdates (activeChangeTimerFired h 125
           (scrollAll burst (recalculateAndRenderMarkers three_turns initial)))
           = activeDotUpdates (recalculateAndRenderMarkers three_turns initial) @ [Str ''t1'']
       \<and> timeouts (activeChangeTimerFired h 125
           (scrollAll burst (recalculateAndRenderMarkers three_turns initial))) = [])"
proof -
  have h1: "reach any_rebuild (recalculateAndRenderMarkers three_turns initial)"
    by (rule reach_three_turns) (simp add: any_rebuild_def)
  have h2: "burst \<noteq> []"
    by (simp add: burst_def)
  have h4: "activeCandidate (fst (last burst))
      (markers (recalculateAndRenderMarkers three_turns initial)) = Some (Str ''t1'')"
    by (simp add: burst_def three_turns_state candidate_page120)
  have h5: "truthy (Str ''t1'')"
    by simp
  have d: "deferred (recalculateAndRenderMarkers three_turns initial) (page_first, 10)
    \<and> deferred (recalculateAndRenderMarkers three_turns initial) (page120, 20)"
    using deferred_burst by (simp add: burst_def)
  have a: "activeTurnId (recalculateAndRenderMarkers three_turns initial) = Str ''t2''"
    by (simp add: three_turns_state)
  show ?thesis
    using coalesced_commit [OF h1 h2 deferred_burst h4 h5, of 125] h1 h2 h4 h5 d a
    by blast
qed


section \<open>Claims about the tooltip placement\<close>

lemma tier_le_floor: "(numeral k \<le> (of_int \<lfloor>a :: real\<rfloor> :: real)) = (numeral k \<le> a)"
proof -
  have "(numeral k \<le> (of_int \<lfloor>a\<rfloor> :: real)) = ((numeral k :: int) \<le> \<lfloor>a\<rfloor>)"
    by (metis of_int_le_iff of_int_numeral)
  then show ?thesis
    by (simp add: numeral_le_floor)
qed

lemma tierFor_eq:
  "160 \<le> hm \<Longrightarrow>
   tierFor hm fb =
     (if 280 \<le> hm then 280 else if 240 \<le> hm then 240 else if 200 \<le> hm then 200 else 160)"
  by (simp add: tierFor_def tiers_def)

lemma hardMax_tier:
  "tierFor (max 160 (min mw (of_int \<lfloor>a :: real\<rfloor>))) fb =
     (if 280 \<le> mw \<and> 280 \<le> a then 280 else if 240 \<le> mw \<and> 240 \<le> a then 240
      else if 200 \<le> mw \<and> 200 \<le> a then 200 else 160)"
proof -
  define f :: real where "f = of_int \<lfloor>a\<rfloor>"
  define hm where "hm = max 160 (min mw f)"
  have f: "(280 \<le> f) = (280 \<le> a)" "(240 \<le> f) = (240 \<le> a)" "(200 \<le> f) = (200 \<le> a)"
    unfolding f_def by (rule tier_le_floor)+
  have "(280 \<le> hm) = (280 \<le> mw \<and> 280 \<le> f)" "(240 \<le> hm) = (240 \<le> mw \<and> 240 \<le> f)"
    "(200 \<le> hm) = (200 \<le> mw \<and> 200 \<le> f)"
    by (auto simp: hm_def max_def min_def)
  then have hm: "(280 \<le> hm) = (280 \<le> mw \<and> 280 \<le> a)" "(240 \<le> hm) = (240 \<le> mw \<and> 240 \<le> a)"
    "(200 \<le> hm) = (200 \<le> mw \<and> 200 \<le> a)"
    by (simp_all only: f)
  have "160 \<le> hm"
    by (simp add: hm_def)
  then have "tierFor hm fb =
     (if 280 \<le> hm then 280 else if 240 \<le> hm then 240 else if 200 \<le> hm then 200 else 160)"
    by (rule tierFor_eq)
  then show ?thesis
    by (simp only: hm) (simp only: hm_def f_def)
qed

lemma computePlacementInfo_eq:
  "computePlacementInfo css dotRect vw =
     \<lparr>placement = (if rightAvail css dotRect vw > leftAvail css dotRect then SideRight
                    else SideLeft),
      width = max 120 (min (cappedTier (maxW css)
                 (max (leftAvail css dotRect) (rightAvail css dotRect vw))) (maxW css))\<rparr>"
proof -
  define la where "la = leftAvail css dotRect"
  define ra where "ra = rightAvail css dotRect vw"
  have T: "tierFor (max 160 (min (maxW css) (of_int \<lfloor>a\<rfloor>))) fb = cappedTier (maxW css) a" for a fb
    unfolding cappedTier_def by (rule hardMax_tier)
  have lo: "\<not> cappedTier mw a < 160" for mw a
    by (simp add: cappedTier_def)
  show ?thesis
  proof (cases "ra > la")
    case True
    then have m: "max la ra = ra" by simp
    have "computePlacementInfo css dotRect vw =
        \<lparr>placement = SideRight, width = max 120 (min (cappedTier (maxW css) ra) (maxW css))\<rparr>"
      unfolding computePlacementInfo_def Let_def la_def [symmetric] ra_def [symmetric]
      using True by (simp add: T lo)
    then show ?thesis
      using True by (simp add: la_def [symmetric] ra_def [symmetric] m)
  next
    case False
    then have m: "max la ra = la" by simp
    have "computePlacementInfo css dotRect vw =
        \<lparr>placement = SideLeft, width = max 120 (min (cappedTier (maxW css) la) (maxW css))\<rparr>"
      unfolding computePlacementInfo_def Let_def la_def [symmetric] ra_def [symmetric]
      using False by (simp add: T lo)
    then show ?thesis
      using False by (simp add: la_def [symmetric] ra_def [symmetric] m)
  qed
qed

lemma cappedTier_fit:
  assumes "160 \<le> mw"
  shows "max 120 (min (cappedTier mw a) mw) = cappedTier mw a"
    and "160 \<le> a \<Longrightarrow> cappedTier mw a \<in> set tiers \<and> cappedTier mw a \<le> a \<and> cappedTier mw a \<le> mw
           \<and> (\<forall>t\<in>set tiers. t \<le> a \<and> t \<le> mw \<longrightarrow> t \<le> cappedTier mw a)"
    and "\<not> 160 \<le> a \<Longrightarrow> cappedTier mw a = 160"
  using assms by (auto simp: cappedTier_def tiers_def max_def min_def)

lemma cappedTier_small: "mw < 160 \<Longrightarrow> max 120 (min (cappedTier mw a) mw) = max 120 mw"
  by (auto simp: cappedTier_def max_def min_def)

text \<open>
  C7, as the code has it. \<^verbatim>\<open>computePlacementInfo\<close> places the tooltip on the side with
  more room (the left on a tie). When the maximal tooltip width is at least 160: if some
  tier of 280/240/200/160 fits the room on that side, the width is the largest tier that
  fits both the room and the maximal width; if none fits the room, none fits the other
  side either, and the width is the minimum 160. When the maximal width is below 160, the
  width is the maximal width, but at least 120.
\<close>

theorem computePlacementInfo_tier:
  "(let p = computePlacementInfo css dotRect vw;
        avail = availOn (placement p) css dotRect vw;
        other = availOn (otherSide (placement p)) css dotRect vw
    in placement p = (if rightAvail css dotRect vw > leftAvail css dotRect
                      then SideRight else SideLeft)
       \<and> other \<le> avail
       \<and> (160 \<le> maxW css \<longrightarrow>
            ((\<exists>t\<in>set tiers. t \<le> avail) \<longrightarrow>
               width p \<in> set tiers \<and> width p \<le> avail \<and> width p \<le> maxW css
               \<and> (\<forall>t\<in>set tiers. t \<le> avail \<and> t \<le> maxW css \<longrightarrow> t \<le> width p))
            \<and> ((\<forall>t\<in>set tiers. \<not> t \<le> avail) \<longrightarrow>
               (\<forall>t\<in>set tiers. \<not> t \<le> other) \<and> width p = 160))
       \<and> (maxW css < 160 \<longrightarrow> width p = max 120 (maxW css)))"
proof -
  define la where "la = leftAvail css dotRect"
  define ra where "ra = rightAvail css dotRect vw"
  define a where "a = max la ra"
  define w where "w = max 120 (min (cappedTier (maxW css) a) (maxW css))"
  define p where "p = computePlacementInfo css dotRect vw"
  define Av where "Av = availOn (placement p) css dotRect vw"
  define Oth where "Oth = availOn (otherSide (placement p)) css dotRect vw"
  have eq: "p = \<lparr>placement = (if ra > la then SideRight else SideLeft), width = w\<rparr>"
    unfolding p_def la_def ra_def w_def a_def by (rule computePlacementInfo_eq)
  have c1: "placement p = (if rightAvail css dotRect vw > leftAvail css dotRect
                           then SideRight else SideLeft)"
    by (simp add: eq la_def ra_def)
  have wd: "width p = w"
    by (simp add: eq)
  have Av: "Av = a"
    by (simp add: Av_def eq availOn_def a_def la_def ra_def max_def)
  have Oth: "Oth \<le> a"
    by (simp add: Oth_def eq availOn_def a_def la_def ra_def max_def)
  have c2: "Oth \<le> Av"
    using Oth Av by simp
  have fits: "(\<exists>t\<in>set tiers. t \<le> x) = (160 \<le> x)" for x :: real
    by (auto simp: tiers_def)
  have nofit: "(\<forall>t\<in>set tiers. \<not> t \<le> x) = (\<not> 160 \<le> x)" for x :: real
    by (auto simp: tiers_def)
  have c3: "width p \<in> set tiers \<and> width p \<le> Av \<and> width p \<le> maxW css
      \<and> (\<forall>t\<in>set tiers. t \<le> Av \<and> t \<le> maxW css \<longrightarrow> t \<le> width p)"
    if "160 \<le> maxW css" and "\<exists>t\<in>set tiers. t \<le> Av"
  proof -
    have "160 \<le> a"
      using that(2) fits [of a] by (simp add: Av)
    then show ?thesis
      using cappedTier_fit(1,2) [OF that(1), of a] by (simp add: wd w_def Av)
  qed
  have c4: "(\<forall>t\<in>set tiers. \<not> t \<le> Oth) \<and> width p = 160"
    if "160 \<le> maxW css" and "\<forall>t\<in>set tiers. \<not> t \<le> Av"
  proof -
    have na: "\<not> 160 \<le> a"
      using that(2) nofit [of a] by (simp add: Av)
    then have "\<not> 160 \<le> Oth"
      using Oth by linarith
    then have "\<forall>t\<in>set tiers. \<not> t \<le> Oth"
      using nofit [of Oth] by simp
    moreover have "width p = 160"
      using cappedTier_fit(1,3) [OF that(1), of a] na by (simp add: wd w_def)
    ultimately show ?thesis by simp
  qed
  have c5: "width p = max 120 (maxW css)" if "maxW css < 160"
    unfolding wd w_def using that by (rule cappedTier_small)
  show ?thesis
    unfolding Let_def p_def [symmetric] Av_def [symmetric] Oth_def [symmetric]
    using c1 c2 c3 c4 c5 by blast
qed

theorem computePlacementInfo_tier_witness:
  "160 \<le> maxW default_css
   \<and> computePlacementInfo default_css dot_right_edge 1000 = \<lparr>placement = SideLeft, width = 280\<rparr>
   \<and> availOn SideLeft default_css dot_right_edge 1000 = 916
   \<and> availOn SideRight default_css dot_right_edge 1000 = 6
   \<and> (\<exists>t\<in>set tiers. t \<le> availOn
          (placement (computePlacementInfo default_css dot_right_edge 1000))
          default_css dot_right_edge 1000)
   \<and> width (computePlacementInfo default_css dot_right_edge 1000) \<in> set tiers
   \<and> width (computePlacementInfo default_css dot_right_edge 1000) \<le> maxW default_css
   \<and> computePlacementInfo default_css dot_tight 300 = \<lparr>placement = SideRight, width = 160\<rparr>
   \<and> availOn SideRight default_css dot_tight 300 = 116
   \<and> availOn SideLeft default_css dot_tight 300 = 106
   \<and> availOn (otherSide (placement (computePlacementInfo default_css dot_tight 300)))
        default_css dot_tight 300
      \<le> availOn (placement (computePlacementInfo default_css dot_tight 300))
        default_css dot_tight 300"
proof -
  have h: "160 \<le> maxW default_css"
    by (simp add: default_css_def)
  have l1: "leftAvail default_css dot_right_edge = 916"
    and r1: "rightAvail default_css dot_right_edge 1000 = 6"
    and l2: "leftAvail default_css dot_tight = 106"
    and r2: "rightAvail default_css dot_tight 300 = 116"
    by (simp_all add: leftAvail_def rightAvail_def tooltipGap_def viewportPad_def
        default_css_def dot_right_edge_def dot_tight_def)
  have mw: "maxW default_css = 288"
    by (simp add: default_css_def)
  have p1: "computePlacementInfo default_css dot_right_edge 1000
      = \<lparr>placement = SideLeft, width = 280\<rparr>"
    by (simp add: computePlacementInfo_eq l1 r1 mw cappedTier_def)
  have p2: "computePlacementInfo default_css dot_tight 300
      = \<lparr>placement = SideRight, width = 160\<rparr>"
    by (simp add: computePlacementInfo_eq l2 r2 mw cappedTier_def)
  have a: "availOn SideLeft default_css dot_right_edge 1000 = 916"
    "availOn SideRight default_css dot_right_edge 1000 = 6"
    "availOn SideRight default_css dot_tight 300 = 116"
    "availOn SideLeft default_css dot_tight 300 = 106"
    by (simp_all add: availOn_def l1 r1 l2 r2)
  have e: "\<exists>t\<in>set tiers. t \<le> availOn
      (placement (computePlacementInfo default_css dot_right_edge 1000))
      default_css dot_right_edge 1000"
    by (simp add: p1 a tiers_def)
  note t1 = computePlacementInfo_tier [of default_css dot_right_edge 1000, unfolded Let_def]
  note t2 = computePlacementInfo_tier [of default_css dot_tight 300, unfolded Let_def]
  show ?thesis
    using t1 t2 h e p1 p2 a by blast
qed

text \<open>
  A maximal width of 250: the room on the left is 916, the tier 280 fits it, and the
  width is 240.
\<close>

theorem computePlacementInfo_capped_counterexample:
  "maxW css250 = 250
   \<and> availOn SideLeft css250 dot_right_edge 1000 = 916
   \<and> 280 \<in> set tiers
   \<and> 280 \<le> availOn SideLeft css250 dot_right_edge 1000
   \<and> computePlacementInfo css250 dot_right_edge 1000 = \<lparr>placement = SideLeft, width = 240\<rparr>"
  by (simp add: computePlacementInfo_eq cappedTier_def leftAvail_def rightAvail_def
      tooltipGap_def viewportPad_def css250_def dot_right_edge_def availOn_def tiers_def)

section \<open>Claims about the persisted position\<close>

text \<open>
  C9. For a bar rectangle inside the margin-clamped bounds (its offset from the right
  edge in \<open>[10, W - width - 10]\<close> and its top in \<open>[10, H - height - 10]\<close>), saving the position
  at the viewport \<open>(W, H)\<close> and restoring it at the same viewport, with the bar of the same
  size at any place, writes a \<^verbatim>\<open>right\<close> and \<^verbatim>\<open>top\<close> within 1px of the saved
  rectangle's offset from the right edge and of its top.
\<close>

theorem save_restore_roundtrip:
  assumes "0 \<le> rect_width r" and "0 \<le> rect_height r"
    and "10 \<le> W - rect_right r" and "W - rect_right r \<le> W - rect_width r - 10"
    and "10 \<le> rect_top r" and "rect_top r \<le> H - rect_height r - 10"
    and "rect_width barRect = rect_width r" and "rect_height barRect = rect_height r"
  shows "\<exists>res x y. restorePosition (Some (savePosition r W H)) W H barRect = Some res
           \<and> style_right res = Fin x \<and> style_top res = Fin y
           \<and> \<bar>x - (W - rect_right r)\<bar> \<le> 1 \<and> \<bar>y - rect_top r\<bar> \<le> 1"
proof -
  have W: "W \<noteq> 0" and H: "H \<noteq> 0"
    using assms(1-6) by linarith+
  have x: "(W - rect_right r) / W * 100 / 100 * W = W - rect_right r"
    using W by simp
  have y: "rect_top r / H * 100 / 100 * H = rect_top r"
    using H by simp
  have sr: "js_times (js_over (js_times (js_div (W - rect_right r) W) 100) 100) W
            = Fin (W - rect_right r)"
    using W x by (simp add: js_div_def js_times_def js_over_def)
  have st: "js_times (js_over (js_times (js_div (rect_top r) H) 100) 100) H = Fin (rect_top r)"
    using H y by (simp add: js_div_def js_times_def js_over_def)
  have cr: "js_max 10 (js_min (Fin (W - rect_right r)) (W - rect_width barRect - 10))
            = Fin (W - rect_right r)"
    using assms(3,4,7) by (simp add: js_max_def js_min_def max_def min_def)
  have ct: "js_max 10 (js_min (Fin (rect_top r)) (H - rect_height barRect - 10))
            = Fin (rect_top r)"
    using assms(5,6,8) by (simp add: js_max_def js_min_def max_def min_def)
  have "restorePosition (Some (savePosition r W H)) W H barRect =
        Some \<lparr>style_right = Fin (W - rect_right r), style_top = Fin (rect_top r),
              stored = (savePosition r W H)\<lparr>saved_windowWidth := W, saved_windowHeight := H\<rparr>\<rparr>"
    unfolding restorePosition_def by (simp add: Let_def savePosition_def sr st cr ct)
  then show ?thesis
    by simp
qed

theorem save_restore_roundtrip_witness:
  "0 \<le> rect_width bar_rect \<and> 0 \<le> rect_height bar_rect
   \<and> 10 \<le> 1000 - rect_right bar_rect
   \<and> 1000 - rect_right bar_rect \<le> 1000 - rect_width bar_rect - 10
   \<and> 10 \<le> rect_top bar_rect \<and> rect_top bar_rect \<le> 800 - rect_height bar_rect - 10
   \<and> rect_width bar_elsewhere = rect_width bar_rect
   \<and> rect_height bar_elsewhere = rect_height bar_rect
   \<and> rect_right bar_elsewhere \<noteq> rect_right bar_rect
   \<and> rect_top bar_elsewhere \<noteq> rect_top bar_rect
   \<and> saved_right (savePosition bar_rect 1000 800) = Fin 4
   \<and> saved_top (savePosition bar_rect 1000 800) = Fin (25 / 2)
   \<and> map_option style_right
        (restorePosition (Some (savePosition bar_rect 1000 800)) 1000 800 bar_elsewhere)
      = Some (Fin 40)
   \<and> map_option style_top
        (restorePosition (Some (savePosition bar_rect 1000 800)) 1000 800 bar_elsewhere)
      = Some (Fin 100)
   \<and> (\<exists>res x y. restorePosition (Some (savePosition bar_rect 1000 800)) 1000 800 bar_elsewhere
          = Some res
        \<and> style_right res = Fin x \<and> style_top res = Fin y
        \<and> \<bar>x - (1000 - rect_right bar_rect)\<bar> \<le> 1 \<and> \<bar>y - rect_top bar_rect\<bar> \<le> 1)"
proof -
  have h: "0 \<le> rect_width bar_rect" "0 \<le> rect_height bar_rect"
    "10 \<le> 1000 - rect_right bar_rect"
    "1000 - rect_right bar_rect \<le> 1000 - rect_width bar_rect - 10"
    "10 \<le> rect_top bar_rect" "rect_top bar_rect \<le> 800 - rect_height bar_rect - 10"
    "rect_width bar_elsewhere = rect_width bar_rect"
    "rect_height bar_elsewhere = rect_height bar_rect"
    by (simp_all add: bar_rect_def bar_elsewhere_def)
  have n: "rect_right bar_elsewhere \<noteq> rect_right bar_rect"
    "rect_top bar_elsewhere \<noteq> rect_top bar_rect"
    by (simp_all add: bar_rect_def bar_elsewhere_def)
  have s: "saved_right (savePosition bar_rect 1000 800) = Fin 4"
    "saved_top (savePosition bar_rect 1000 800) = Fin (25 / 2)"
    by (simp_all add: savePosition_def bar_rect_def js_div_def js_times_def)
  have v: "map_option style_right
        (restorePosition (Some (savePosition bar_rect 1000 800)) 1000 800 bar_elsewhere)
      = Some (Fin 40)"
    "map_option style_top
        (restorePosition (Some (savePosition bar_rect 1000 800)) 1000 800 bar_elsewhere)
      = Some (Fin 100)"
    by (simp_all add: restorePosition_def savePosition_def bar_rect_def bar_elsewhere_def
        js_div_def js_times_def js_over_def js_min_def js_max_def Let_def)
  show ?thesis
    using save_restore_roundtrip [OF h] h n s v by blast
qed

end
